theory Spec2Isabelle
  imports Main "HOL-Library.Sublist"
begin

section \<open>Values, subscriptions and the emitter state\<close>

text \<open>
  The model follows \<^verbatim>\<open>src/event-emitter.js\<close>. Event names are JavaScript strings.
  The values that callers pass as handlers and contexts are \<open>undefined\<close>, \<open>null\<close>, the
  number \<open>NaN\<close> (the one value that \<open>==\<close> does not equate with itself), references to
  objects that cannot be called (\<open>Obj\<close>: they have no \<open>call\<close> method), and references to
  functions. Objects and functions keep the default \<open>valueOf\<close> and \<open>toString\<close>, so that
  comparing one with \<open>NaN\<close> is false and runs no code of the caller, and functions keep
  the default \<open>call\<close>, so that line 75 runs the function itself. A function written by
  the caller is \<^emph>\<open>quiet\<close>: when it is called it either returns (\<open>Fun\<close>) or throws
  (\<open>Thrower\<close>), and while it runs it calls neither \<open>on\<close>, \<open>once\<close>, \<open>off\<close>, \<open>emit\<close> of
  the emitter nor another subscribed function. Every statement about dispatch below is a
  statement about quiet functions. The one handler of the repository that calls back into
  the emitter, the wrapper that \<open>once\<close> generates, is modelled in full. Strings,
  booleans and the numbers other than \<open>NaN\<close> are not part of the value model.
\<close>

type_synonym name = string

datatype jsval = Undefined | Null | NaN | Obj nat | Fun nat | Thrower nat

text \<open>
  A stored handler is either a value the caller supplied, or the function object
  \<open>onceHandler\<close> that \<open>once\<close> creates (lines 54-60). Each call of \<open>once\<close> creates a new
  function object: the first field is its identity. The other fields are what the closure
  captures: \<open>name\<close>, \<open>handler\<close> (also stored under \<open>ORIGINAL_SYMBOL\<close>) and \<open>context\<close>.
\<close>

datatype handler = Plain jsval | OnceHandler nat name jsval jsval

record subscription =
  sub_context :: jsval
  sub_handler :: handler

datatype exn = TypeError | UserError nat

datatype completion = Normal | Throw exn

text \<open>One entry of the observation log: a caller's function was invoked; \<open>receiver\<close> is
  the this-argument that was given to \<open>call\<close>.\<close>

record call =
  callee :: jsval
  receiver :: jsval
  arguments :: "jsval list"

text \<open>
  The registry is the object created by the literal \<open>{}\<close> (line 21) and stored under
  \<open>SUBSCRIPTIONS_SYMBOL\<close>. \<open>registry\<close> holds its arrays of subscriptions, each under the
  name whose lookup \<open>registry[name]\<close> reads it. For every name but \<open>__proto__\<close> the array
  is the own property of that name. Assigning an array to \<open>__proto__\<close> runs the setter
  inherited from \<open>Object.prototype\<close>: it creates no own property and makes the array the
  prototype of the registry, and the inherited getter reads it back. So the entry under
  \<open>__proto__\<close> is the array that has become the prototype; there is none while the
  prototype is \<open>Object.prototype\<close>. \<open>allocated\<close> counts the wrappers created so far (the
  next identity); \<open>calls\<close> is the log of invocations of the caller's functions.
\<close>

record state =
  registry :: "name \<rightharpoonup> subscription list"
  allocated :: nat
  calls :: "call list"

definition new_emitter :: state where
  "new_emitter = \<lparr>registry = Map.empty, allocated = 0, calls = []\<rparr>"

section \<open>Property lookup on the registry object\<close>

text \<open>
  A name without an array of its own is looked up on the prototype chain of the registry.
  These are the property names of \<open>Object.prototype\<close> and of \<open>Array.prototype\<close> in
  ECMAScript 2023 (with Annex B). \<open>__proto__\<close> reads as the prototype itself, every other
  one as a function.
\<close>

definition object_prototype_names :: "name list" where
  "object_prototype_names =
     [''constructor'', ''hasOwnProperty'', ''isPrototypeOf'', ''propertyIsEnumerable'',
      ''toLocaleString'', ''toString'', ''valueOf'', ''__proto__'',
      ''__defineGetter__'', ''__defineSetter__'', ''__lookupGetter__'', ''__lookupSetter__'']"

definition array_prototype_names :: "name list" where
  "array_prototype_names =
     [''at'', ''concat'', ''copyWithin'', ''entries'', ''every'', ''fill'', ''filter'',
      ''find'', ''findIndex'', ''findLast'', ''findLastIndex'', ''flat'', ''flatMap'',
      ''forEach'', ''includes'', ''indexOf'', ''join'', ''keys'', ''lastIndexOf'', ''map'',
      ''pop'', ''push'', ''reduce'', ''reduceRight'', ''reverse'', ''shift'', ''slice'',
      ''some'', ''sort'', ''splice'', ''toReversed'', ''toSorted'', ''toSpliced'',
      ''unshift'', ''values'', ''with'']"

text \<open>The property name of an array index: its decimal numeral.\<close>

fun decimal :: "nat \<Rightarrow> string" where
  "decimal n =
     (if n < 10 then [''0123456789'' ! n]
      else decimal (n div 10) @ [''0123456789'' ! (n mod 10)])"

declare decimal.simps [simp del]

text \<open>
  \<open>inherited st name\<close>: the prototype chain of the registry has a property of this name
  whose value is truthy. With \<open>Object.prototype\<close> as prototype these are its own names.
  With an array as prototype these are, besides, the names of \<open>Array.prototype\<close>, which
  stands between the array and \<open>Object.prototype\<close>, the indices of the array (each reads as
  a subscription object), and \<open>length\<close> unless the array is empty (the number 0 is
  falsy). None of these values is an array, except what \<open>__proto__\<close> reads once an array
  is the prototype, and that array is the entry of \<open>registry\<close>.
\<close>

definition inherited :: "state \<Rightarrow> name \<Rightarrow> bool" where
  "inherited st name =
     (name \<in> set object_prototype_names \<or>
      (case registry st ''__proto__'' of
         None \<Rightarrow> False
       | Some subs \<Rightarrow>
           name \<in> set array_prototype_names \<or>
           name \<in> set (map decimal [0..<length subs]) \<or>
           (name = ''length'' \<and> subs \<noteq> [])))"

text \<open>What \<open>registry[name]\<close> reads: an array of subscriptions, another truthy value, or
  a falsy one (\<open>undefined\<close>, or the length 0).\<close>

datatype property = Array "subscription list" | Other | Absent

definition get_prop :: "state \<Rightarrow> name \<Rightarrow> property" where
  "get_prop st name =
     (case registry st name of
        Some subs \<Rightarrow> Array subs
      | None \<Rightarrow> if inherited st name then Other else Absent)"

text \<open>The array object that \<open>registry[name]\<close> reads, read live; empty when there is none.\<close>

definition subscriptions :: "state \<Rightarrow> name \<Rightarrow> subscription list" where
  "subscriptions st name = (case registry st name of Some subs \<Rightarrow> subs | None \<Rightarrow> [])"

section \<open>Equality and matching\<close>

fun nullish :: "jsval \<Rightarrow> bool" where
  "nullish Undefined = True"
| "nullish Null = True"
| "nullish _ = False"

text \<open>A default parameter \<open>context = null\<close> replaces \<open>undefined\<close> only.\<close>

definition default_null :: "jsval \<Rightarrow> jsval" where
  "default_null context = (if context = Undefined then Null else context)"

text \<open>
  \<open>==\<close> on the modelled values: \<open>null\<close> and \<open>undefined\<close> equal each other and nothing
  else, \<open>NaN\<close> equals nothing, not even itself, and references are equal when they are the
  same reference.
\<close>

definition loose_eq :: "jsval \<Rightarrow> jsval \<Rightarrow> bool" where
  "loose_eq a b =
     (if nullish a \<or> nullish b then nullish a \<and> nullish b else a \<noteq> NaN \<and> a = b)"

fun handler_eq :: "handler \<Rightarrow> handler \<Rightarrow> bool" where
  "handler_eq (Plain a) (Plain b) = loose_eq a b"
| "handler_eq (OnceHandler i _ _ _) (OnceHandler j _ _ _) = (i = j)"
| "handler_eq _ _ = False"

text \<open>\<open>h[ORIGINAL_SYMBOL]\<close>: a TypeError on \<open>undefined\<close> and \<open>null\<close>, the captured handler
  on a wrapper, \<open>undefined\<close> on every other value.\<close>

fun original :: "handler \<Rightarrow> exn + handler" where
  "original (Plain v) = (if nullish v then Inl TypeError else Inr (Plain Undefined))"
| "original (OnceHandler _ _ h _) = Inr (Plain h)"

text \<open>Lines 87-94. \<open>||\<close> evaluates its right operand only when the left one is false.\<close>

definition matchesSubscription :: "handler \<Rightarrow> jsval \<Rightarrow> subscription \<Rightarrow> exn + bool" where
  "matchesSubscription handler context subscription =
     (let matchesContext = loose_eq (sub_context subscription) context in
      if handler_eq (sub_handler subscription) handler then Inr matchesContext
      else case original (sub_handler subscription) of
             Inl e \<Rightarrow> Inl e
           | Inr tag \<Rightarrow> Inr (handler_eq tag handler \<and> matchesContext))"

text \<open>
  Lines 97-99: \<open>find\<close> returns the first subscription the predicate accepts, and
  \<open>indexOf\<close> its position. Every subscription object is pushed once, so the position is
  the one at which \<open>find\<close> stopped; \<open>find_match\<close> returns it.
\<close>

fun find_match :: "handler \<Rightarrow> jsval \<Rightarrow> subscription list \<Rightarrow> exn + nat option" where
  "find_match handler context [] = Inr None"
| "find_match handler context (s # ss) =
     (case matchesSubscription handler context s of
        Inl e \<Rightarrow> Inl e
      | Inr True \<Rightarrow> Inr (Some 0)
      | Inr False \<Rightarrow>
          (case find_match handler context ss of
             Inl e \<Rightarrow> Inl e
           | Inr None \<Rightarrow> Inr None
           | Inr (Some i) \<Rightarrow> Inr (Some (Suc i))))"

text \<open>\<open>subscriptions.splice(index, 1)\<close>.\<close>

definition splice_one :: "nat \<Rightarrow> 'a list \<Rightarrow> 'a list" where
  "splice_one index xs = take index xs @ drop (Suc index) xs"

section \<open>The four operations\<close>

text \<open>
  The value \<open>on\<close> returns is \<open>this.off.bind(this, name, handler, context)\<close>. Line 37
  keeps the array that the lookup finds and assigns a new array otherwise, also over an
  inherited value: every data property of the two prototypes is writable, so the
  assignment creates an own property, and for \<open>__proto__\<close> it makes the new array the
  prototype. Line 38 pushes the subscription onto the array that the name now reads.
\<close>

datatype token = Off name handler jsval

definition on :: "name \<Rightarrow> handler \<Rightarrow> jsval \<Rightarrow> state \<Rightarrow> token \<times> state" where
  "on name handler context0 st =
     (let context = default_null context0;
          arr = (case get_prop st name of Array a \<Rightarrow> a | Other \<Rightarrow> [] | Absent \<Rightarrow> []);
          pushed = arr @ [\<lparr>sub_context = context, sub_handler = handler\<rparr>]
      in (Off name handler context, st\<lparr>registry := (registry st)(name \<mapsto> pushed)\<rparr>))"

text \<open>
  Lines 53-64: \<open>once\<close> creates the wrapper, registers it with \<open>on\<close> under the context as
  given, and returns the token of that \<open>on\<close>, which is also what the wrapper calls.
\<close>

definition once :: "name \<Rightarrow> jsval \<Rightarrow> jsval \<Rightarrow> state \<Rightarrow> token \<times> state" where
  "once name handler context st =
     on name (OnceHandler (allocated st) name handler context) context
        (st\<lparr>allocated := Suc (allocated st)\<rparr>)"

text \<open>
  \<open>delete registry[name]\<close> (line 104) removes the own property of the name. The array
  under \<open>__proto__\<close> is the prototype and no own property: \<open>delete\<close> leaves it in place.
\<close>

definition delete_prop :: "name \<Rightarrow> state \<Rightarrow> state" where
  "delete_prop name st =
     (if name = ''__proto__'' then st else st\<lparr>registry := (registry st)(name := None)\<rparr>)"

text \<open>
  Lines 86-106. When the lookup gives another truthy value, \<open>subscriptions.find\<close> is not a
  function and the call raises a TypeError. When it gives a falsy one, \<open>find\<close> runs on the
  fallback \<open>[]\<close>, and \<open>delete\<close> is reached with nothing to delete. Otherwise the array is
  spliced in place, and \<open>delete\<close> is reached when the array is empty.
\<close>

definition off :: "name \<Rightarrow> handler \<Rightarrow> jsval \<Rightarrow> state \<Rightarrow> completion \<times> state" where
  "off name handler context0 st =
     (let context = default_null context0 in
      case get_prop st name of
        Other \<Rightarrow> (Throw TypeError, st)
      | Absent \<Rightarrow> (Normal, delete_prop name st)
      | Array subs \<Rightarrow>
          (case find_match handler context subs of
             Inl e \<Rightarrow> (Throw e, st)
           | Inr found \<Rightarrow>
               (let subs' = (case found of None \<Rightarrow> subs | Some index \<Rightarrow> splice_one index subs);
                    st' = st\<lparr>registry := (registry st)(name \<mapsto> subs')\<rparr>
                in (Normal, if subs' = [] then delete_prop name st' else st'))))"

fun invoke_token :: "token \<Rightarrow> state \<Rightarrow> completion \<times> state" where
  "invoke_token (Off name handler context) st = off name handler context st"

text \<open>\<open>v.call(this, ...args)\<close> for a value of the caller.\<close>

fun call_value :: "jsval \<Rightarrow> jsval \<Rightarrow> jsval list \<Rightarrow> state \<Rightarrow> completion \<times> state" where
  "call_value (Fun f) this args st =
     (Normal, st\<lparr>calls := calls st @ [\<lparr>callee = Fun f, receiver = this, arguments = args\<rparr>]\<rparr>)"
| "call_value (Thrower f) this args st =
     (Throw (UserError f),
      st\<lparr>calls := calls st @ [\<lparr>callee = Thrower f, receiver = this, arguments = args\<rparr>]\<rparr>)"
| "call_value _ this args st = (Throw TypeError, st)"

text \<open>
  \<open>subscription.handler.call(subscription.context, ...args)\<close> (line 75). The wrapper
  (lines 54-57) ignores its own receiver: it calls the token that \<open>on\<close> returned to
  \<open>once\<close>, then the captured handler with the captured context.
\<close>

fun invoke :: "handler \<Rightarrow> jsval \<Rightarrow> jsval list \<Rightarrow> state \<Rightarrow> completion \<times> state" where
  "invoke (Plain v) this args st = call_value v this args st"
| "invoke (OnceHandler i name handler context) this args st =
     (case off name (OnceHandler i name handler context) (default_null context) st of
        (Throw e, st') \<Rightarrow> (Throw e, st')
      | (Normal, st') \<Rightarrow> call_value handler context args st')"

text \<open>
  \<open>Array.prototype.forEach\<close>: the length is read once, before the loop; index \<open>k\<close> is
  visited when the array still has an element there. \<open>forEach name args k n\<close> runs the
  \<open>n\<close> iterations that remain from index \<open>k\<close>, so \<open>emit\<close> starts it with \<open>k = 0\<close> and
  \<open>n\<close> the length read before the loop.

  The loop walks the array object that \<open>emit\<close> read from the registry, and \<open>off\<close> splices
  the array object it reads from the registry: the skipped slot of a once-subscription
  comes from the two being the same object. The model reads the array of \<open>name\<close> from the
  state at every iteration. This is the same object: no array is created while the loop
  runs (\<open>on\<close> is not called from a handler), so the name reads the array the loop started
  with until \<open>off\<close> has emptied it and deleted the property, and then both the array and
  the live read are empty.
\<close>

fun forEach :: "name \<Rightarrow> jsval list \<Rightarrow> nat \<Rightarrow> nat \<Rightarrow> state \<Rightarrow> completion \<times> state" where
  "forEach name args k 0 st = (Normal, st)"
| "forEach name args k (Suc n) st =
     (let live = subscriptions st name in
      if k < length live then
        (case invoke (sub_handler (live ! k)) (sub_context (live ! k)) args st of
           (Throw e, st') \<Rightarrow> (Throw e, st')
         | (Normal, st') \<Rightarrow> forEach name args (Suc k) n st')
      else forEach name args (Suc k) n st)"

text \<open>Lines 72-77. A truthy value that is no array has no \<open>forEach\<close>.\<close>

definition emit :: "name \<Rightarrow> jsval list \<Rightarrow> state \<Rightarrow> completion \<times> state" where
  "emit name args st =
     (case get_prop st name of
        Other \<Rightarrow> (Throw TypeError, st)
      | Absent \<Rightarrow> (Normal, st)
      | Array subs \<Rightarrow> forEach name args 0 (length subs) st)"

section \<open>Observations used in the statements\<close>



fun reference :: "jsval \<Rightarrow> bool" where
  "reference (Obj x) = True"
| "reference (Fun f) = True"
| "reference (Thrower f) = True"
| "reference _ = False"

text \<open>The function of the caller that runs when a stored handler is invoked, and the
  receiver it runs with.\<close>

fun target :: "subscription \<Rightarrow> jsval" where
  "target s = (case sub_handler s of Plain v \<Rightarrow> v | OnceHandler _ _ h _ \<Rightarrow> h)"

fun bound_this :: "subscription \<Rightarrow> jsval" where
  "bound_this s = (case sub_handler s of Plain v \<Rightarrow> sub_context s | OnceHandler _ _ _ c \<Rightarrow> c)"

definition call_of :: "jsval list \<Rightarrow> subscription \<Rightarrow> call" where
  "call_of args s = \<lparr>callee = target s, receiver = bound_this s, arguments = args\<rparr>"

text \<open>The calls logged between an earlier state and a later one, and those of one function.\<close>

definition new_calls :: "state \<Rightarrow> state \<Rightarrow> call list" where
  "new_calls st st' = drop (length (calls st)) (calls st')"

definition calls_of :: "jsval \<Rightarrow> call list \<Rightarrow> call list" where
  "calls_of h cs = filter (\<lambda>c. callee c = h) cs"


section \<open>The matching rule in the words of the specification\<close>

text \<open>
  The specification's rule for \<open>off\<close>: the stored context equals the given one (loosely),
  and the stored handler equals the given handler, or is a once-wrapper whose captured
  original equals it. \<open>spec_remove_first\<close> removes the first element a predicate accepts.
\<close>

definition spec_matches :: "jsval \<Rightarrow> jsval \<Rightarrow> subscription \<Rightarrow> bool" where
  "spec_matches handler context s =
     (loose_eq (sub_context s) context \<and>
      (case sub_handler s of Plain v \<Rightarrow> v = handler | OnceHandler _ _ h _ \<Rightarrow> h = handler))"

fun spec_remove_first :: "('a \<Rightarrow> bool) \<Rightarrow> 'a list \<Rightarrow> 'a list" where
  "spec_remove_first P [] = []"
| "spec_remove_first P (x # xs) = (if P x then xs else x # spec_remove_first P xs)"

section \<open>The state after a removal\<close>

text \<open>
  What lines 100-105 leave when the array under the name holds \<open>ys\<close> after the splice:
  the name reads \<open>ys\<close>, and its own property is deleted when \<open>ys\<close> is empty.
\<close>

definition removed :: "name \<Rightarrow> subscription list \<Rightarrow> state \<Rightarrow> state" where
  "removed name ys st =
     (if ys = [] then delete_prop name (st\<lparr>registry := (registry st)(name \<mapsto> ys)\<rparr>)
      else st\<lparr>registry := (registry st)(name \<mapsto> ys)\<rparr>)"

section \<open>Reachable states\<close>

text \<open>
  The states an emitter can be in: a new emitter, and what the four operations and the
  tokens returned by \<open>on\<close> and \<open>once\<close> make of a reachable state. A token may have been
  returned at any earlier state. Callers pass their own values as handlers; a wrapper
  enters the registry through \<open>once\<close> only.
\<close>

inductive reachable :: "state \<Rightarrow> bool" where
  new: "reachable new_emitter"
| on: "reachable st \<Longrightarrow> reachable (snd (on name (Plain h) context st))"
| once: "reachable st \<Longrightarrow> reachable (snd (once name h context st))"
| emit: "reachable st \<Longrightarrow> reachable (snd (emit name args st))"
| off: "reachable st \<Longrightarrow> reachable (snd (off name (Plain h) context st))"
| token_on: "reachable st0 \<Longrightarrow> reachable st \<Longrightarrow>
     reachable (snd (invoke_token (fst (on name (Plain h) context st0)) st))"
| token_once: "reachable st0 \<Longrightarrow> reachable st \<Longrightarrow>
     reachable (snd (invoke_token (fst (once name h context st0)) st))"

section \<open>Concrete emitters\<close>

text \<open>States reached by calls of the operations on a new emitter; they are the inputs at
  which the statements below are evaluated.\<close>

definition ex_registered :: state where
  "ex_registered = snd (on ''event'' (Plain (Fun 0)) Undefined new_emitter)"

definition ex_listener :: state where
  "ex_listener = snd (on ''event'' (Plain (Fun 1)) (Obj 5) new_emitter)"


definition ex_three :: state where
  "ex_three = snd (on ''event'' (Plain (Fun 0)) (Obj 7)
                (snd (once ''event'' (Fun 0) (Obj 7) ex_listener)))"

definition ex_once_undefined :: state where
  "ex_once_undefined = snd (on ''event'' (Plain (Fun 0)) Undefined
                         (snd (once ''event'' Undefined Undefined new_emitter)))"

definition ex_two :: state where
  "ex_two = snd (on ''event'' (Plain (Fun 0)) Undefined ex_listener)"





definition ex_proto :: state where
  "ex_proto = snd (on ''__proto__'' (Plain (Fun 0)) Undefined new_emitter)"

section \<open>Evaluation and dispatch lemmas\<close>

lemmas eval_defs = on_def once_def off_def emit_def get_prop_def subscriptions_def new_emitter_def
  inherited_def object_prototype_names_def array_prototype_names_def delete_prop_def removed_def
  default_null_def loose_eq_def matchesSubscription_def splice_one_def new_calls_def calls_of_def
  call_of_def Let_def

lemma subscriptions_calls [simp]: "subscriptions (st\<lparr>calls := c\<rparr>) name = subscriptions st name"
  by (simp add: subscriptions_def)

lemma subscriptions_allocated [simp]:
  "subscriptions (st\<lparr>allocated := a\<rparr>) name = subscriptions st name"
  by (simp add: subscriptions_def)

lemma inherited_calls [simp]: "inherited (st\<lparr>calls := c\<rparr>) name = inherited st name"
  by (simp add: inherited_def)

lemma inherited_allocated [simp]: "inherited (st\<lparr>allocated := a\<rparr>) name = inherited st name"
  by (simp add: inherited_def)

lemma get_prop_calls [simp]: "get_prop (st\<lparr>calls := c\<rparr>) name = get_prop st name"
  by (simp add: get_prop_def)

lemma get_prop_allocated [simp]: "get_prop (st\<lparr>allocated := a\<rparr>) name = get_prop st name"
  by (simp add: get_prop_def)




lemma calls_on [simp]: "calls (snd (on name hv context st)) = calls st"
  by (simp add: on_def Let_def)


text \<open>Matching and removal.\<close>

lemma loose_eq_refl: "loose_eq c c \<longleftrightarrow> c \<noteq> NaN"
  by (cases c) (simp_all add: loose_eq_def)

lemma loose_eq_default_null [simp]: "loose_eq a (default_null c) = loose_eq a c"
  by (cases c; cases a) (simp_all add: loose_eq_def default_null_def)

lemma loose_eq_default_null_left [simp]: "loose_eq (default_null c) c' = loose_eq c c'"
  by (cases c; cases c') (simp_all add: loose_eq_def default_null_def)

lemma matches_self:
  "handler_eq hv hv \<Longrightarrow> loose_eq c c \<Longrightarrow>
   matchesSubscription hv (default_null c) \<lparr>sub_context = default_null c, sub_handler = hv\<rparr>
     = Inr True"
  by (simp add: matchesSubscription_def)


lemma find_match_all_false:
  "\<forall>s\<in>set xs. matchesSubscription hv c s = Inr False \<Longrightarrow> find_match hv c xs = Inr None"
  by (induction xs) simp_all

lemma find_match_first:
  "\<forall>s\<in>set pre. matchesSubscription hv c s = Inr False \<Longrightarrow>
   matchesSubscription hv c s' = Inr True \<Longrightarrow>
   find_match hv c (pre @ s' # rest) = Inr (Some (length pre))"
  by (induction pre) simp_all

lemma splice_one_append [simp]: "splice_one (length pre) (pre @ s # rest) = pre @ rest"
  by (simp add: splice_one_def)

lemma state_registry_same [simp]: "registry st name = v \<Longrightarrow> st\<lparr>registry := (registry st)(name := v)\<rparr> = st"
  by (simp add: fun_upd_idem)

lemma delete_prop_absent: "registry st name = None \<Longrightarrow> delete_prop name st = st"
  by (simp add: delete_prop_def)

lemma calls_delete_prop [simp]: "calls (delete_prop name st) = calls st"
  by (simp add: delete_prop_def)

lemma allocated_delete_prop [simp]: "allocated (delete_prop name st) = allocated st"
  by (simp add: delete_prop_def)

lemma registry_removed:
  "registry (removed name ys st) =
     (registry st)(name := if ys = [] \<and> name \<noteq> ''__proto__'' then None else Some ys)"
  by (simp add: removed_def delete_prop_def)

lemma removed_eq:
  "removed name ys st =
     st\<lparr>registry := (registry st)
          (name := if ys = [] \<and> name \<noteq> ''__proto__'' then None else Some ys)\<rparr>"
  by (simp add: removed_def delete_prop_def)

lemma subscriptions_removed [simp]: "subscriptions (removed name ys st) name = ys"
  by (simp add: subscriptions_def registry_removed)

lemma subscriptions_removed_other:
  "n \<noteq> name \<Longrightarrow> subscriptions (removed name ys st) n = subscriptions st n"
  by (simp add: subscriptions_def registry_removed)

lemma calls_removed [simp]: "calls (removed name ys st) = calls st"
  by (simp add: removed_def)

lemma allocated_removed [simp]: "allocated (removed name ys st) = allocated st"
  by (simp add: removed_def)

lemma removed_calls: "removed name ys (st\<lparr>calls := c\<rparr>) = (removed name ys st)\<lparr>calls := c\<rparr>"
  by (simp add: removed_def delete_prop_def)

lemma removed_allocated:
  "removed name ys (st\<lparr>allocated := a\<rparr>) = (removed name ys st)\<lparr>allocated := a\<rparr>"
  by (simp add: removed_def delete_prop_def)

lemma removed_overwrite:
  "removed name ys (st\<lparr>registry := (registry st)(name \<mapsto> zs)\<rparr>) = removed name ys st"
  by (simp add: removed_def delete_prop_def)

lemma removed_same:
  "registry st name = Some ys \<Longrightarrow> ys \<noteq> [] \<or> name = ''__proto__'' \<Longrightarrow> removed name ys st = st"
  by (auto simp: removed_def delete_prop_def)

lemma removed_absent:
  "registry st name = None \<Longrightarrow> name \<noteq> ''__proto__'' \<Longrightarrow> removed name [] st = st"
  by (simp add: removed_def delete_prop_def)

lemma off_calls [simp]: "calls (snd (off name hv c st)) = calls st"
  by (simp add: off_def Let_def split: property.splits sum.splits)

lemma allocated_off [simp]: "allocated (snd (off name hv c st)) = allocated st"
  by (simp add: off_def Let_def split: property.splits sum.splits)

lemma off_array:
  assumes "registry st name = Some xs"
  shows "off name hv c st =
     (case find_match hv (default_null c) xs of
        Inl e \<Rightarrow> (Throw e, st)
      | Inr None \<Rightarrow> (Normal, removed name xs st)
      | Inr (Some i) \<Rightarrow> (Normal, removed name (splice_one i xs) st))"
  using assms
  by (simp add: off_def get_prop_def removed_def Let_def split: sum.splits option.splits)

lemma off_removes:
  assumes "registry st name = Some (pre @ s # rest)"
    and "\<forall>p\<in>set pre. matchesSubscription hv (default_null c) p = Inr False"
    and "matchesSubscription hv (default_null c) s = Inr True"
  shows "off name hv c st = (Normal, removed name (pre @ rest) st)"
  using find_match_first[OF assms(2,3), of rest]
  by (simp add: off_array[OF assms(1)])

lemma off_no_match:
  assumes "registry st name = Some xs" and "xs \<noteq> [] \<or> name = ''__proto__''"
    and "\<forall>p\<in>set xs. matchesSubscription hv (default_null c) p = Inr False"
  shows "off name hv c st = (Normal, st)"
  using find_match_all_false[OF assms(3)] removed_same[OF assms(1,2)]
  by (simp add: off_array[OF assms(1)])

lemma off_absent:
  assumes "get_prop st name = Absent"
  shows "off name hv c st = (Normal, st)"
proof -
  have "registry st name = None" using assms by (simp add: get_prop_def split: option.splits)
  then show ?thesis using assms by (simp add: off_def delete_prop_absent)
qed

lemma off_unmatched:
  assumes "get_prop st name \<noteq> Other"
    and "registry st name \<noteq> Some [] \<or> name = ''__proto__''"
    and "\<forall>p\<in>set (subscriptions st name). matchesSubscription hv (default_null c) p = Inr False"
  shows "off name hv c st = (Normal, st)"
proof (cases "registry st name")
  case None
  then have "get_prop st name = Absent"
    using assms(1) by (cases "inherited st name") (simp_all add: get_prop_def)
  then show ?thesis by (rule off_absent)
next
  case (Some xs)
  show ?thesis using Some
  proof (rule off_no_match)
    show "xs \<noteq> [] \<or> name = ''__proto__''" using Some assms(2) by auto
    show "\<forall>p\<in>set xs. matchesSubscription hv (default_null c) p = Inr False"
      using assms(3) Some by (simp add: subscriptions_def)
  qed
qed



lemma default_null_idem [simp]: "default_null (default_null c) = default_null c"
  by (simp add: default_null_def)




text \<open>Where the code's predicate and the specification's rule agree.\<close>

lemma loose_eq_reference: "reference b \<Longrightarrow> loose_eq a b = (a = b)"
  by (cases b; cases a) (simp_all add: loose_eq_def)

lemma matches_as_specified:
  assumes "reference h" and "original (sub_handler s) \<noteq> Inl TypeError"
  shows "matchesSubscription (Plain h) (default_null c) s = Inr (spec_matches h c s)"
proof (cases "sub_handler s")
  case (Plain v)
  with assms(2) have nv: "\<not> nullish v" by (simp split: if_splits)
  have "\<not> loose_eq Undefined h" using assms(1) by (cases h) (simp_all add: loose_eq_def)
  then show ?thesis using Plain nv assms(1)
    by (auto simp: matchesSubscription_def spec_matches_def loose_eq_reference Let_def)
next
  case (OnceHandler i n h' c')
  show ?thesis using OnceHandler assms(1)
    by (auto simp: matchesSubscription_def spec_matches_def loose_eq_reference Let_def)
qed

lemma find_match_predicate:
  "\<forall>s\<in>set xs. matchesSubscription hv c s = Inr (P s) \<Longrightarrow>
   (case find_match hv c xs of
      Inl e \<Rightarrow> False
    | Inr None \<Rightarrow> \<not> list_ex P xs
    | Inr (Some i) \<Rightarrow> list_ex P xs \<and> splice_one i xs = spec_remove_first P xs)"
proof (induction xs)
  case Nil
  then show ?case by simp
next
  case (Cons x xs)
  then show ?case
    by (cases "P x") (auto simp: splice_one_def split: sum.splits option.splits)
qed

lemma call_value_registry [simp]: "registry (snd (call_value v this args st)) = registry st"
  by (cases v) simp_all

text \<open>A token called twice.\<close>

lemma on_state:
  "on name hv context st =
     (Off name hv (default_null context),
      st\<lparr>registry := (registry st)(name \<mapsto> subscriptions st name @
           [\<lparr>sub_context = default_null context, sub_handler = hv\<rparr>])\<rparr>)"
  by (simp add: on_def subscriptions_def get_prop_def Let_def split: option.splits)

lemma matches_fresh_wrapper:
  assumes "original (sub_handler s) \<noteq> Inl TypeError"
    and "\<forall>j n h' c'. sub_handler s = OnceHandler j n h' c' \<longrightarrow> j \<noteq> i"
  shows "matchesSubscription (OnceHandler i name h c) ctx s = Inr False"
  using assms
  by (cases "sub_handler s") (auto simp: matchesSubscription_def Let_def split: if_splits)

lemma token_twice:
  assumes "get_prop st name \<noteq> Other"
    and "registry st name \<noteq> Some [] \<or> name = ''__proto__''"
    and "handler_eq hv hv" and "loose_eq context context"
    and "\<forall>s\<in>set (subscriptions st name). matchesSubscription hv (default_null context) s = Inr False"
  shows "invoke_token (fst (on name hv context st)) (snd (on name hv context st)) = (Normal, st) \<and>
         invoke_token (fst (on name hv context st)) st = (Normal, st)"
proof -
  let ?xs = "subscriptions st name"
  let ?new = "\<lparr>sub_context = default_null context, sub_handler = hv\<rparr>"
  let ?st1 = "st\<lparr>registry := (registry st)(name \<mapsto> ?xs @ [?new])\<rparr>"
  have on_eq: "on name hv context st = (Off name hv (default_null context), ?st1)"
    by (rule on_state)
  have reg1: "registry ?st1 name = Some (?xs @ ?new # [])" by simp
  have self: "matchesSubscription hv (default_null (default_null context)) ?new = Inr True"
    using matches_self[OF assms(3,4)] by simp
  have pre: "\<forall>p\<in>set ?xs. matchesSubscription hv (default_null (default_null context)) p = Inr False"
    using assms(5) by simp
  have "off name hv (default_null context) ?st1 = (Normal, removed name (?xs @ []) ?st1)"
    using reg1 pre self by (rule off_removes)
  also have "removed name (?xs @ []) ?st1 = removed name ?xs st"
    by (simp add: removed_overwrite)
  also have "\<dots> = st"
  proof (cases "registry st name")
    case None
    then have "name \<noteq> ''__proto__''"
      using assms(1) by (auto simp: get_prop_def inherited_def object_prototype_names_def)
    with None show ?thesis by (simp add: subscriptions_def removed_absent)
  next
    case (Some xs)
    then show ?thesis using assms(2) by (auto simp: subscriptions_def intro: removed_same)
  qed
  finally have first: "off name hv (default_null context) ?st1 = (Normal, st)" .
  have second: "off name hv (default_null context) st = (Normal, st)"
    using assms(1,2) pre by (rule off_unmatched)
  show ?thesis using first second by (simp add: on_eq)
qed

text \<open>What one invocation can do: log calls of its target, and remove subscriptions.\<close>


lemma set_splice_one: "set (splice_one i xs) \<subseteq> set xs"
  unfolding splice_one_def using set_take_subset[of i xs] set_drop_subset[of "Suc i" xs] by auto

lemma off_subscriptions_cases:
  "subscriptions (snd (off n hv c st)) m = subscriptions st m \<or>
   (\<exists>i. subscriptions (snd (off n hv c st)) m = splice_one i (subscriptions st m))"
proof (cases "registry st n")
  case None
  then have "snd (off n hv c st) = st"
    by (simp add: off_def get_prop_def delete_prop_absent)
  then show ?thesis by simp
next
  case (Some xs)
  show ?thesis
  proof (cases "m = n")
    case True
    have "subscriptions st n = xs" using Some by (simp add: subscriptions_def)
    moreover have "subscriptions (removed n xs st) n = xs" by simp
    moreover have "subscriptions (removed n (splice_one i xs) st) n = splice_one i xs" for i by simp
    ultimately show ?thesis using True
      by (auto simp: off_array[OF Some] split: sum.splits option.splits)
  next
    case False
    then have "subscriptions (removed n ys st) m = subscriptions st m" for ys
      by (simp add: subscriptions_removed_other)
    then show ?thesis
      by (auto simp: off_array[OF Some] split: sum.splits option.splits)
  qed
qed

lemma off_subscriptions_subset:
  "set (subscriptions (snd (off name hv c st)) n) \<subseteq> set (subscriptions st n)"
proof -
  have "set (splice_one i (subscriptions st n)) \<subseteq> set (subscriptions st n)" for i
    by (rule set_splice_one)
  then show ?thesis using off_subscriptions_cases[of name hv c st n] by fastforce
qed

lemma call_value_effect:
  "\<exists>cs. snd (call_value v this args st) = st\<lparr>calls := calls st @ cs\<rparr> \<and> (\<forall>c\<in>set cs. callee c = v)"
proof (cases v)
  case (Fun f)
  then show ?thesis by (intro exI[of _ "[\<lparr>callee = Fun f, receiver = this, arguments = args\<rparr>]"]) simp
next
  case (Thrower f)
  then show ?thesis by (intro exI[of _ "[\<lparr>callee = Thrower f, receiver = this, arguments = args\<rparr>]"]) simp
qed (auto intro: exI[of _ "[]"])

lemma invoke_effect:
  "\<exists>cs. calls (snd (invoke (sub_handler s) (sub_context s) args st)) = calls st @ cs \<and>
        (\<forall>c\<in>set cs. callee c = target s) \<and>
        set (subscriptions (snd (invoke (sub_handler s) (sub_context s) args st)) n)
          \<subseteq> set (subscriptions st n)"
proof (cases "sub_handler s")
  case (Plain v)
  obtain cs where "snd (call_value v (sub_context s) args st) = st\<lparr>calls := calls st @ cs\<rparr>"
    and "\<forall>c\<in>set cs. callee c = v"
    using call_value_effect by blast
  then show ?thesis using Plain by (intro exI[of _ cs]) simp
next
  case (OnceHandler i name h c)
  obtain r st' where o: "off name (OnceHandler i name h c) (default_null c) st = (r, st')"
    by (cases "off name (OnceHandler i name h c) (default_null c) st")
  have c': "calls st' = calls st"
    using off_calls[of name "OnceHandler i name h c" "default_null c" st] o by simp
  have s': "set (subscriptions st' n) \<subseteq> set (subscriptions st n)"
    using off_subscriptions_subset[of name "OnceHandler i name h c" "default_null c" st n] o by simp
  show ?thesis
  proof (cases r)
    case Normal
    obtain cs where "snd (call_value h c args st') = st'\<lparr>calls := calls st' @ cs\<rparr>"
      and "\<forall>c\<in>set cs. callee c = h"
      using call_value_effect by blast
    then show ?thesis using OnceHandler o Normal c' s' by (intro exI[of _ cs]) simp
  next
    case (Throw e)
    then show ?thesis using OnceHandler o c' s' by (intro exI[of _ "[]"]) simp
  qed
qed

lemma forEach_effect:
  "\<exists>cs. calls (snd (forEach name args k j st)) = calls st @ cs \<and>
        (\<forall>c\<in>set cs. callee c \<in> target ` set (subscriptions st name))"
proof (induction j arbitrary: k st)
  case 0
  show ?case by (intro exI[of _ "[]"]) simp
next
  case (Suc j)
  show ?case
  proof (cases "k < length (subscriptions st name)")
    case False
    then show ?thesis using Suc.IH[of "Suc k" st] by (simp del: target.simps)
  next
    case True
    let ?s = "subscriptions st name ! k"
    obtain r st' where i: "invoke (sub_handler ?s) (sub_context ?s) args st = (r, st')"
      by (cases "invoke (sub_handler ?s) (sub_context ?s) args st")
    obtain cs where cs: "calls st' = calls st @ cs" "\<forall>c\<in>set cs. callee c = target ?s"
      and sub: "set (subscriptions st' name) \<subseteq> set (subscriptions st name)"
      using invoke_effect[of ?s args st name] i by auto
    have mem: "?s \<in> set (subscriptions st name)" using True by simp
    show ?thesis
    proof (cases r)
      case (Throw e)
      then show ?thesis using True i cs mem by (intro exI[of _ cs]) (auto simp del: target.simps)
    next
      case Normal
      obtain ds where ds: "calls (snd (forEach name args (Suc k) j st')) = calls st' @ ds"
        "\<forall>c\<in>set ds. callee c \<in> target ` set (subscriptions st' name)"
        using Suc.IH[of "Suc k" st'] by blast
      have "\<forall>c\<in>set (cs @ ds). callee c \<in> target ` set (subscriptions st name)"
      proof
        fix c assume c: "c \<in> set (cs @ ds)"
        show "callee c \<in> target ` set (subscriptions st name)"
        proof (cases "c \<in> set cs")
          case True
          then have "callee c = target ?s" using cs(2) by blast
          then show ?thesis using mem by (rule image_eqI)
        next
          case False
          then have "c \<in> set ds" using c by simp
          then have "callee c \<in> target ` set (subscriptions st' name)" using ds(2) by blast
          then obtain s' where s': "s' \<in> set (subscriptions st' name)" "callee c = target s'"
            by (rule imageE) blast
          from s'(1) sub have "s' \<in> set (subscriptions st name)" by (rule subsetD[rotated])
          with s'(2) show ?thesis by (rule image_eqI)
        qed
      qed
      then show ?thesis using True i Normal cs(1) ds(1)
        by (intro exI[of _ "cs @ ds"]) (simp del: target.simps)
    qed
  qed
qed

lemma emit_effect:
  "\<exists>cs. calls (snd (emit name args st)) = calls st @ cs \<and>
        (\<forall>c\<in>set cs. callee c \<in> target ` set (subscriptions st name))"
proof (cases "get_prop st name")
  case (Array subs)
  then show ?thesis using forEach_effect[of name args 0 "length subs" st]
    by (simp add: emit_def del: target.simps)
qed (auto simp: emit_def intro: exI[of _ "[]"])

lemma emit_never_calls:
  assumes "\<forall>s\<in>set (subscriptions st name). target s \<noteq> h"
  shows "calls_of h (new_calls st (snd (emit name args st))) = []"
proof -
  obtain cs where cs: "calls (snd (emit name args st)) = calls st @ cs"
    "\<forall>c\<in>set cs. callee c \<in> target ` set (subscriptions st name)"
    using emit_effect by blast
  have "\<forall>c\<in>set cs. callee c \<noteq> h" using cs(2) assms by (metis imageE)
  then show ?thesis by (simp add: new_calls_def cs(1) calls_of_def)
qed




lemma allocated_on [simp]: "allocated (snd (on name hv context st)) = allocated st"
  by (simp add: on_def Let_def)







section \<open>Own properties of the registry are never empty\<close>

text \<open>
  No operation leaves an empty array as an own property of the registry: \<open>on\<close> pushes
  onto the array it stores, and \<open>off\<close> deletes the own property whenever the array it
  leaves is empty. The array under \<open>__proto__\<close> is the exception (see C6).
\<close>

lemma on_keeps_nonempty:
  "\<forall>n. registry st n = Some [] \<longrightarrow> n = ''__proto__'' \<Longrightarrow>
   registry (snd (on name hv c st)) n = Some [] \<longrightarrow> n = ''__proto__''"
  by (simp add: on_def Let_def)

lemma off_keeps_nonempty:
  "\<forall>n. registry st n = Some [] \<longrightarrow> n = ''__proto__'' \<Longrightarrow>
   registry (snd (off name hv c st)) n = Some [] \<longrightarrow> n = ''__proto__''"
  by (auto simp: off_def delete_prop_def Let_def split: property.splits sum.splits)

lemma invoke_keeps_nonempty:
  assumes "\<forall>n. registry st n = Some [] \<longrightarrow> n = ''__proto__''"
  shows "registry (snd (invoke hv this args st)) n = Some [] \<longrightarrow> n = ''__proto__''"
proof (cases hv)
  case (Plain v)
  then show ?thesis using assms by simp
next
  case (OnceHandler i name h c)
  obtain r st' where o: "off name (OnceHandler i name h c) (default_null c) st = (r, st')"
    by (cases "off name (OnceHandler i name h c) (default_null c) st")
  have "registry st' n = Some [] \<longrightarrow> n = ''__proto__''"
    using off_keeps_nonempty[OF assms, of name "OnceHandler i name h c" "default_null c" n] o
    by simp
  then show ?thesis using OnceHandler o by (cases r) simp_all
qed

lemma forEach_keeps_nonempty:
  "\<forall>n. registry st n = Some [] \<longrightarrow> n = ''__proto__'' \<Longrightarrow>
   \<forall>n. registry (snd (forEach name args k j st)) n = Some [] \<longrightarrow> n = ''__proto__''"
proof (induction j arbitrary: k st)
  case 0
  then show ?case by simp
next
  case (Suc j)
  show ?case
  proof (cases "k < length (subscriptions st name)")
    case False
    then show ?thesis using Suc.IH[OF Suc.prems] by simp
  next
    case True
    let ?s = "subscriptions st name ! k"
    obtain r st' where i: "invoke (sub_handler ?s) (sub_context ?s) args st = (r, st')"
      by (cases "invoke (sub_handler ?s) (sub_context ?s) args st")
    have inv': "\<forall>n. registry st' n = Some [] \<longrightarrow> n = ''__proto__''"
      using invoke_keeps_nonempty[OF Suc.prems, of "sub_handler ?s" "sub_context ?s" args] i
      by simp
    show ?thesis using True i inv' Suc.IH[OF inv'] by (cases r) simp_all
  qed
qed

lemma emit_keeps_nonempty:
  "\<forall>n. registry st n = Some [] \<longrightarrow> n = ''__proto__'' \<Longrightarrow>
   registry (snd (emit name args st)) n = Some [] \<longrightarrow> n = ''__proto__''"
  using forEach_keeps_nonempty[of st name args 0]
  by (simp add: emit_def split: property.splits)

lemma reachable_own_nonempty:
  "reachable st \<Longrightarrow> registry st n = Some [] \<longrightarrow> n = ''__proto__''"
proof (induction arbitrary: n rule: reachable.induct)
  case new
  show ?case by (simp add: new_emitter_def)
next
  case (on st n' h c)
  then show ?case by (intro on_keeps_nonempty) blast
next
  case (once st n' h c)
  have "\<forall>n. registry (st\<lparr>allocated := Suc (allocated st)\<rparr>) n = Some [] \<longrightarrow> n = ''__proto__''"
    using once.IH by simp
  then show ?case unfolding once_def by (rule on_keeps_nonempty)
next
  case (emit st n' args)
  then show ?case by (intro emit_keeps_nonempty) blast
next
  case (off st n' h c)
  then show ?case by (intro off_keeps_nonempty) blast
next
  case (token_on st0 st n' h c)
  then have "\<forall>n. registry st n = Some [] \<longrightarrow> n = ''__proto__''" by blast
  then show ?case by (simp add: on_def Let_def off_keeps_nonempty)
next
  case (token_once st0 st n' h c)
  then have "\<forall>n. registry st n = Some [] \<longrightarrow> n = ''__proto__''" by blast
  then show ?case by (simp add: once_def on_def Let_def off_keeps_nonempty)
qed

section \<open>The registry after a subscription under \<open>__proto__\<close>\<close>

text \<open>
  The subscription made under \<open>__proto__\<close> is dispatched like any other. From then on
  the registry inherits from the array: \<open>length\<close>, the index \<open>0\<close> and \<open>push\<close> read as
  values that are no arrays, and \<open>off\<close> raises a TypeError for them. A subscription under
  such a name shadows the inherited value; its token removes it, the inherited value is
  read again, and the second invocation of the token raises a TypeError.
\<close>

lemma subscription_under_proto_dispatched:
  "new_calls ex_proto (snd (emit ''__proto__'' [Obj 1] ex_proto)) =
     [\<lparr>callee = Fun 0, receiver = Null, arguments = [Obj 1]\<rparr>]"
  by (simp add: ex_proto_def eval_defs)

lemma names_inherited_from_the_array:
  "map (get_prop ex_proto) [''length'', ''0'', ''1'', ''push'', ''event''] =
     [Other, Other, Absent, Other, Absent]"
  by (simp add: ex_proto_def eval_defs decimal.simps)

lemma off_raises_on_name_inherited_from_the_array:
  "off ''length'' (Plain (Fun 1)) Undefined ex_proto = (Throw TypeError, ex_proto)"
  by (simp add: ex_proto_def eval_defs)

lemma token_raises_on_name_inherited_from_the_array:
  "invoke_token (fst (on ''length'' (Plain (Fun 1)) Undefined ex_proto))
      (snd (on ''length'' (Plain (Fun 1)) Undefined ex_proto)) = (Normal, ex_proto) \<and>
   invoke_token (fst (on ''length'' (Plain (Fun 1)) Undefined ex_proto)) ex_proto
     = (Throw TypeError, ex_proto)"
  by (simp add: ex_proto_def eval_defs)

section \<open>Registration and dispatch\<close>




section \<open>Subscriptions made with once\<close>




section \<open>Removal with off\<close>

text \<open>
  C3, as stated: \<open>off\<close> removes the first subscription whose context equals the given
  one and whose handler equals the given handler or wraps it, and is a no-op that leaves
  the registry unchanged when no subscription matches. With \<open>undefined\<close> as the handler the
  code removes a subscription that the rule does not match: the registry holds one plain
  subscription of the function \<open>Fun 0\<close>, the rule accepts none, and \<open>off\<close> empties the
  registry. With \<open>NaN\<close> as the handler the code removes nothing, also when the rule
  accepts a subscription, the one stored with this very handler: \<open>NaN\<close> does not equal
  itself under \<open>==\<close>.
\<close>

theorem off_undefined_handler_removes_unrelated:
  "list_ex (spec_matches Undefined Undefined) (subscriptions ex_registered ''event'') = False \<and>
   registry ex_registered ''event'' = Some [\<lparr>sub_context = Null, sub_handler = Plain (Fun 0)\<rparr>] \<and>
   off ''event'' (Plain Undefined) Undefined ex_registered = (Normal, new_emitter) \<and>
   list_ex (spec_matches NaN Undefined)
     (subscriptions (snd (on ''event'' (Plain NaN) Undefined new_emitter)) ''event'') = True \<and>
   off ''event'' (Plain NaN) Undefined (snd (on ''event'' (Plain NaN) Undefined new_emitter))
     = (Normal, snd (on ''event'' (Plain NaN) Undefined new_emitter))"
  by (simp add: ex_registered_def eval_defs spec_matches_def)

text \<open>
  C3, amended: let the handler argument be a reference to an object or a function, let
  every handler stored under the name be such a reference or the wrapper of one (none is
  \<open>undefined\<close> or \<open>null\<close>), let the lookup of the name in the registry give a
  subscription sequence or nothing (not a value inherited from the prototype chain), and
  let no own property of the registry hold an empty sequence. Then
  \<open>off(name, handler, context)\<close> returns normally and removes exactly the first
  subscription, in sequence order, that the rule accepts (also when duplicates exist);
  for a name other than \<open>__proto__\<close> the key is deleted when the sequence becomes empty.
  When the rule accepts none, the state is unchanged. (No state that the operations
  reach has an empty sequence as an own property: lemma \<open>reachable_own_nonempty\<close>. What
  remains under \<open>__proto__\<close> is the subject of C6.)
\<close>

theorem off_removes_first_match:
  assumes "reference h"
    and "\<forall>s\<in>set (subscriptions st name). original (sub_handler s) \<noteq> Inl TypeError"
    and "get_prop st name \<noteq> Other"
    and "registry st name \<noteq> Some [] \<or> name = ''__proto__''"
  shows "off name (Plain h) context st =
     (Normal,
      if list_ex (spec_matches h context) (subscriptions st name)
      then st\<lparr>registry := (registry st)
             (name := if spec_remove_first (spec_matches h context) (subscriptions st name) = [] \<and>
                         name \<noteq> ''__proto__''
                      then None
                      else Some (spec_remove_first (spec_matches h context) (subscriptions st name)))\<rparr>
      else st)"
proof (cases "registry st name")
  case None
  then have "get_prop st name = Absent"
    using assms(3) by (cases "inherited st name") (simp_all add: get_prop_def)
  then have "off name (Plain h) context st = (Normal, st)" by (rule off_absent)
  then show ?thesis using None by (simp add: subscriptions_def)
next
  case (Some xs)
  then have sx: "subscriptions st name = xs" by (simp add: subscriptions_def)
  have ne: "xs \<noteq> [] \<or> name = ''__proto__''" using Some assms(4) by auto
  have m: "\<forall>s\<in>set xs. matchesSubscription (Plain h) (default_null context) s
             = Inr (spec_matches h context s)"
    using assms(1,2) sx by (simp add: matches_as_specified)
  note fm = find_match_predicate[OF m]
  show ?thesis
  proof (cases "find_match (Plain h) (default_null context) xs")
    case (Inl e)
    with fm show ?thesis by simp
  next
    case (Inr found)
    show ?thesis
    proof (cases found)
      case None
      with fm Inr have "\<not> list_ex (spec_matches h context) xs" by simp
      moreover have "removed name xs st = st" using Some ne by (rule removed_same)
      ultimately show ?thesis using sx Inr None by (simp add: off_array[OF Some])
    next
      case (Some i)
      with fm Inr have "list_ex (spec_matches h context) xs"
        and "splice_one i xs = spec_remove_first (spec_matches h context) xs" by simp_all
      then show ?thesis using sx Inr Some
        by (simp add: off_array[OF \<open>registry st name = Some xs\<close>] removed_eq)
    qed
  qed
qed

theorem off_removes_first_match_witness:
  "reference (Fun 0) \<and>
   list_all (\<lambda>s. original (sub_handler s) \<noteq> Inl TypeError) (subscriptions ex_three ''event'') \<and>
   get_prop ex_three ''event'' \<noteq> Other \<and> registry ex_three ''event'' \<noteq> Some [] \<and>
   subscriptions ex_three ''event'' =
     [\<lparr>sub_context = Obj 5, sub_handler = Plain (Fun 1)\<rparr>,
      \<lparr>sub_context = Obj 7, sub_handler = OnceHandler 0 ''event'' (Fun 0) (Obj 7)\<rparr>,
      \<lparr>sub_context = Obj 7, sub_handler = Plain (Fun 0)\<rparr>] \<and>
   off ''event'' (Plain (Fun 0)) (Obj 7) ex_three =
     (Normal, ex_three\<lparr>registry := (registry ex_three)(''event'' \<mapsto>
        [\<lparr>sub_context = Obj 5, sub_handler = Plain (Fun 1)\<rparr>,
         \<lparr>sub_context = Obj 7, sub_handler = Plain (Fun 0)\<rparr>])\<rparr>)"
proof -
  have a: "reference (Fun 0)" by simp
  have subs: "subscriptions ex_three ''event'' =
     [\<lparr>sub_context = Obj 5, sub_handler = Plain (Fun 1)\<rparr>,
      \<lparr>sub_context = Obj 7, sub_handler = OnceHandler 0 ''event'' (Fun 0) (Obj 7)\<rparr>,
      \<lparr>sub_context = Obj 7, sub_handler = Plain (Fun 0)\<rparr>]"
    by (simp add: ex_three_def ex_listener_def eval_defs)
  have reg: "registry ex_three ''event'' = Some (subscriptions ex_three ''event'')"
    by (simp add: ex_three_def ex_listener_def eval_defs)
  have b: "\<forall>s\<in>set (subscriptions ex_three ''event''). original (sub_handler s) \<noteq> Inl TypeError"
    by (simp add: subs)
  have c: "get_prop ex_three ''event'' \<noteq> Other" by (simp add: get_prop_def reg)
  have d: "registry ex_three ''event'' \<noteq> Some []" by (simp add: reg subs)
  then have d': "registry ex_three ''event'' \<noteq> Some [] \<or> ''event'' = ''__proto__''" by simp
  show ?thesis
    using off_removes_first_match [OF a b c d', of "Obj 7"] a b c d reg subs
    by (simp add: list_all_iff spec_matches_def loose_eq_def)
qed

section \<open>Order of storage and of dispatch\<close>




section \<open>Removing a once-subscription by its original handler\<close>

text \<open>
  C5, as stated: on every emitter, \<open>off(name, handler, context)\<close> after
  \<open>once(name, handler, context)\<close> removes the once-wrapped subscription, and a later emit
  does not invoke \<open>handler\<close>. It fails when the handler is also subscribed with \<open>on\<close>,
  earlier, with the same context: \<open>off\<close> removes the first match, which is the plain
  subscription; the wrapper stays and the next emit invokes the handler. It fails when
  the context is \<open>NaN\<close>: no stored context equals \<open>NaN\<close>, so \<open>off\<close> finds no match, the
  wrapper stays and the next emit invokes the handler.
\<close>

theorem off_with_original_removes_earlier_plain:
  "subscriptions ex_registered ''event'' = [\<lparr>sub_context = Null, sub_handler = Plain (Fun 0)\<rparr>] \<and>
   subscriptions (snd (off ''event'' (Plain (Fun 0)) Undefined
        (snd (once ''event'' (Fun 0) Undefined ex_registered)))) ''event''
     = [\<lparr>sub_context = Null, sub_handler = OnceHandler 0 ''event'' (Fun 0) Undefined\<rparr>] \<and>
   calls_of (Fun 0) (new_calls ex_registered
      (snd (emit ''event'' [] (snd (off ''event'' (Plain (Fun 0)) Undefined
        (snd (once ''event'' (Fun 0) Undefined ex_registered)))))))
     = [\<lparr>callee = Fun 0, receiver = Undefined, arguments = []\<rparr>] \<and>
   subscriptions (snd (off ''event'' (Plain (Fun 0)) NaN
        (snd (once ''event'' (Fun 0) NaN new_emitter)))) ''event''
     = [\<lparr>sub_context = NaN, sub_handler = OnceHandler 0 ''event'' (Fun 0) NaN\<rparr>] \<and>
   calls_of (Fun 0) (new_calls new_emitter
      (snd (emit ''event'' [] (snd (off ''event'' (Plain (Fun 0)) NaN
        (snd (once ''event'' (Fun 0) NaN new_emitter)))))))
     = [\<lparr>callee = Fun 0, receiver = NaN, arguments = []\<rparr>]"
  by (simp add: ex_registered_def eval_defs)

text \<open>
  C5, amended: for a handler that is a reference to an object or a function and a context
  that equals itself under \<open>==\<close> (it is \<open>undefined\<close>, \<open>null\<close> or a reference to an
  object or a function, not \<open>NaN\<close>), on an emitter where every handler stored under the
  name is a reference to an object or a function, or the wrapper of one, other than
  \<open>handler\<close>: \<open>off(name, handler, context)\<close> after \<open>once(name, handler, context)\<close>
  returns normally and removes the once-wrapped subscription and nothing else (the
  sequence of the name is what it was before \<open>once\<close>), and the next emit of the name does
  not invoke \<open>handler\<close>, the functions subscribed being quiet.
\<close>

theorem off_with_original_removes_once:
  assumes "reference h"
    and "loose_eq context context"
    and "\<forall>s\<in>set (subscriptions st name). original (sub_handler s) \<noteq> Inl TypeError \<and> target s \<noteq> h"
  shows "off name (Plain h) context (snd (once name h context st)) =
           (Normal,
            st\<lparr>registry := (registry st)
                   (name := if subscriptions st name = [] \<and> name \<noteq> ''__proto__'' then None
                            else Some (subscriptions st name)),
               allocated := Suc (allocated st)\<rparr>) \<and>
         subscriptions (snd (off name (Plain h) context (snd (once name h context st)))) name
           = subscriptions st name \<and>
         calls_of h (new_calls st
            (snd (emit name args (snd (off name (Plain h) context (snd (once name h context st)))))))
           = []"
proof -
  define xs where "xs = subscriptions st name"
  define w where "w = \<lparr>sub_context = default_null context,
                        sub_handler = OnceHandler (allocated st) name h context\<rparr>"
  define st1 where "st1 = snd (once name h context st)"
  have st1_eq: "st1 = st\<lparr>registry := (registry st)(name \<mapsto> xs @ [w]), allocated := Suc (allocated st)\<rparr>"
    by (simp add: st1_def once_def on_def xs_def w_def subscriptions_def get_prop_def
        Let_def split: option.splits)
  have reg1: "registry st1 name = Some (xs @ w # [])" by (simp add: st1_eq)
  have pre: "\<forall>p\<in>set xs. matchesSubscription (Plain h) (default_null context) p = Inr False"
  proof
    fix p assume p: "p \<in> set xs"
    then have "original (sub_handler p) \<noteq> Inl TypeError" and t: "target p \<noteq> h"
      using assms(3) by (simp_all add: xs_def del: target.simps)
    then have "matchesSubscription (Plain h) (default_null context) p = Inr (spec_matches h context p)"
      using assms(1) by (simp add: matches_as_specified)
    moreover have "\<not> spec_matches h context p"
      using t by (auto simp: spec_matches_def split: handler.splits)
    ultimately show "matchesSubscription (Plain h) (default_null context) p = Inr False" by simp
  qed
  have self: "matchesSubscription (Plain h) (default_null context) w = Inr True"
    using assms(1,2) by (simp add: matches_as_specified w_def spec_matches_def)
  have o: "off name (Plain h) context st1 = (Normal, removed name (xs @ []) st1)"
    using reg1 pre self by (rule off_removes)
  define st2 where "st2 = snd (off name (Plain h) context st1)"
  have subs2: "subscriptions st2 name = xs" by (simp add: st2_def o)
  have calls2: "calls st2 = calls st" by (simp add: st2_def st1_eq)
  have "\<forall>s\<in>set (subscriptions st2 name). target s \<noteq> h"
    using assms(3) subs2 by (simp add: xs_def del: target.simps)
  then have "calls_of h (new_calls st2 (snd (emit name args st2))) = []"
    by (rule emit_never_calls)
  then have quiet: "calls_of h (new_calls st (snd (emit name args st2))) = []"
    by (simp add: new_calls_def calls2)
  have "removed name (xs @ []) st1 =
      st\<lparr>registry := (registry st)
             (name := if xs = [] \<and> name \<noteq> ''__proto__'' then None else Some xs),
         allocated := Suc (allocated st)\<rparr>"
    by (simp add: st1_eq removed_eq)
  with o have whole: "off name (Plain h) context st1 =
      (Normal, st\<lparr>registry := (registry st)
             (name := if xs = [] \<and> name \<noteq> ''__proto__'' then None else Some xs),
         allocated := Suc (allocated st)\<rparr>)"
    by simp
  show ?thesis using whole subs2 quiet unfolding st2_def st1_def xs_def by blast
qed

theorem off_with_original_removes_once_witness:
  "reference (Fun 0) \<and> loose_eq (Obj 7) (Obj 7) \<and>
   list_all (\<lambda>s. original (sub_handler s) \<noteq> Inl TypeError \<and> target s \<noteq> Fun 0)
      (subscriptions ex_listener ''event'') \<and>
   off ''event'' (Plain (Fun 0)) (Obj 7) (snd (once ''event'' (Fun 0) (Obj 7) ex_listener)) =
     (Normal, ex_listener\<lparr>allocated := Suc (allocated ex_listener)\<rparr>) \<and>
   subscriptions (snd (off ''event'' (Plain (Fun 0)) (Obj 7)
        (snd (once ''event'' (Fun 0) (Obj 7) ex_listener)))) ''event''
     = subscriptions ex_listener ''event'' \<and>
   calls_of (Fun 0) (new_calls ex_listener
      (snd (emit ''event'' [Obj 1] (snd (off ''event'' (Plain (Fun 0)) (Obj 7)
        (snd (once ''event'' (Fun 0) (Obj 7) ex_listener))))))) = []"
proof -
  have a: "reference (Fun 0)" by simp
  have b: "loose_eq (Obj 7) (Obj 7)" by (simp add: loose_eq_def)
  have c: "\<forall>s\<in>set (subscriptions ex_listener ''event'').
             original (sub_handler s) \<noteq> Inl TypeError \<and> target s \<noteq> Fun 0"
    by (simp add: ex_listener_def eval_defs)
  have l: "list_all (\<lambda>s. original (sub_handler s) \<noteq> Inl TypeError \<and> target s \<noteq> Fun 0)
      (subscriptions ex_listener ''event'')"
    using c by (simp add: list_all_iff)
  have reg: "registry ex_listener ''event'' = Some (subscriptions ex_listener ''event'')"
    and ne: "subscriptions ex_listener ''event'' \<noteq> []"
    by (simp_all add: ex_listener_def eval_defs)
  note removes = off_with_original_removes_once [OF a b c, of "[Obj 1]"]
  have whole: "off ''event'' (Plain (Fun 0)) (Obj 7) (snd (once ''event'' (Fun 0) (Obj 7) ex_listener)) =
     (Normal, ex_listener\<lparr>allocated := Suc (allocated ex_listener)\<rparr>)"
    unfolding removes[THEN conjunct1] using reg ne by simp
  show ?thesis
    using a b l whole removes[THEN conjunct2] by blast
qed

section \<open>Empty sequences in the registry\<close>

text \<open>
  C6. The claim: in every state reachable by \<open>on\<close>, \<open>once\<close>, \<open>emit\<close> and \<open>off\<close>, no name
  of the registry has an empty sequence, because \<open>off\<close> deletes the key once the last
  subscription of a name is removed. After \<open>on('__proto__', f)\<close> and \<open>off('__proto__', f)\<close>
  on a new emitter, the name \<open>__proto__\<close> reads as an empty array: the array is the
  prototype of the registry, and \<open>delete\<close> (line 104) removes own properties only. The
  emitter does not behave as a new one afterwards: a new emitter takes \<open>pop\<close> for a name
  without subscriptions, this one raises a TypeError on \<open>emit('pop')\<close>.
\<close>

theorem off_leaves_empty_sequence_under_proto:
  "subscriptions ex_proto ''__proto__'' = [\<lparr>sub_context = Null, sub_handler = Plain (Fun 0)\<rparr>] \<and>
   fst (off ''__proto__'' (Plain (Fun 0)) Undefined ex_proto) = Normal \<and>
   get_prop (snd (off ''__proto__'' (Plain (Fun 0)) Undefined ex_proto)) ''__proto__'' = Array [] \<and>
   emit ''pop'' [] new_emitter = (Normal, new_emitter) \<and>
   fst (emit ''pop'' [] (snd (off ''__proto__'' (Plain (Fun 0)) Undefined ex_proto)))
     = Throw TypeError"
  by (simp add: ex_proto_def eval_defs)

section \<open>Unsubscribe tokens\<close>

text \<open>
  C7, as stated: a second invocation of a token is a no-op also when other registrations
  for the same name, handler and context exist. It fails there: the token is \<open>off\<close> with
  its three arguments bound, so each invocation removes the first subscription that
  matches. The handler is subscribed twice; the first invocation of the second token
  leaves one subscription, the second invocation removes that one too. And with the
  context \<open>NaN\<close> the first invocation does not remove the subscription the token was
  returned for: no stored context equals \<open>NaN\<close>.
\<close>

theorem token_second_call_removes_duplicate:
  "subscriptions ex_registered ''event'' = [\<lparr>sub_context = Null, sub_handler = Plain (Fun 0)\<rparr>] \<and>
   invoke_token (fst (on ''event'' (Plain (Fun 0)) Undefined ex_registered))
      (snd (on ''event'' (Plain (Fun 0)) Undefined ex_registered)) = (Normal, ex_registered) \<and>
   invoke_token (fst (on ''event'' (Plain (Fun 0)) Undefined ex_registered)) ex_registered
      = (Normal, new_emitter) \<and>
   invoke_token (fst (on ''event'' (Plain (Fun 0)) NaN new_emitter))
      (snd (on ''event'' (Plain (Fun 0)) NaN new_emitter))
      = (Normal, snd (on ''event'' (Plain (Fun 0)) NaN new_emitter)) \<and>
   subscriptions (snd (on ''event'' (Plain (Fun 0)) NaN new_emitter)) ''event''
      = [\<lparr>sub_context = NaN, sub_handler = Plain (Fun 0)\<rparr>]"
  by (simp add: ex_registered_def eval_defs)

text \<open>
  C7, amended: let the context, and for \<open>on\<close> the handler, equal itself under \<open>==\<close> (it
  is not \<open>NaN\<close>); let the lookup of the name in the registry give a subscription sequence
  or nothing (not a value inherited from the prototype chain); let no own property of the
  registry hold an empty sequence; and let the test of \<open>off\<close> (lines 87-94), given the
  handler and context of the new subscription, return false for every subscription stored
  under the name (for \<open>once\<close> it does when every stored handler is a reference to an
  object or a function or an earlier wrapper: none is \<open>undefined\<close> or \<open>null\<close>, and none
  is the new wrapper).
  Then the first invocation of the token returned by \<open>on\<close> or \<open>once\<close> returns normally
  and removes the new subscription and nothing else: the registry is what it was before
  the registration. A second invocation returns normally and leaves the state as it is.
\<close>

theorem token_second_call_is_noop:
  assumes "get_prop st name \<noteq> Other"
    and "registry st name \<noteq> Some [] \<or> name = ''__proto__''"
    and "loose_eq context context"
  shows "(loose_eq h h \<and>
          (\<forall>s\<in>set (subscriptions st name).
             matchesSubscription (Plain h) (default_null context) s = Inr False) \<longrightarrow>
          invoke_token (fst (on name (Plain h) context st)) (snd (on name (Plain h) context st))
            = (Normal, st) \<and>
          invoke_token (fst (on name (Plain h) context st)) st = (Normal, st)) \<and>
         ((\<forall>s\<in>set (subscriptions st name).
             original (sub_handler s) \<noteq> Inl TypeError \<and>
             (\<forall>j n h' c'. sub_handler s = OnceHandler j n h' c' \<longrightarrow> j \<noteq> allocated st)) \<longrightarrow>
          invoke_token (fst (once name h context st)) (snd (once name h context st))
            = (Normal, st\<lparr>allocated := Suc (allocated st)\<rparr>) \<and>
          invoke_token (fst (once name h context st)) (st\<lparr>allocated := Suc (allocated st)\<rparr>)
            = (Normal, st\<lparr>allocated := Suc (allocated st)\<rparr>))"
proof -
  have part_on: "invoke_token (fst (on name (Plain h) context st)) (snd (on name (Plain h) context st))
            = (Normal, st) \<and>
          invoke_token (fst (on name (Plain h) context st)) st = (Normal, st)"
    if e: "loose_eq h h"
      and m: "\<forall>s\<in>set (subscriptions st name).
             matchesSubscription (Plain h) (default_null context) s = Inr False"
  proof -
    have "handler_eq (Plain h) (Plain h)" using e by simp
    then show ?thesis using assms m by (intro token_twice)
  qed
  let ?st0 = "st\<lparr>allocated := Suc (allocated st)\<rparr>"
  let ?w = "OnceHandler (allocated st) name h context"
  have part_once: "invoke_token (fst (once name h context st)) (snd (once name h context st))
            = (Normal, ?st0) \<and>
          invoke_token (fst (once name h context st)) ?st0 = (Normal, ?st0)"
    if f: "\<forall>s\<in>set (subscriptions st name).
             original (sub_handler s) \<noteq> Inl TypeError \<and>
             (\<forall>j n h' c'. sub_handler s = OnceHandler j n h' c' \<longrightarrow> j \<noteq> allocated st)"
  proof -
    have g0: "get_prop ?st0 name \<noteq> Other"
      using assms(1) by simp
    have r0: "registry ?st0 name \<noteq> Some [] \<or> name = ''__proto__''" using assms(2) by simp
    have s0: "subscriptions ?st0 name = subscriptions st name" by simp
    have m: "\<forall>s\<in>set (subscriptions ?st0 name).
             matchesSubscription ?w (default_null context) s = Inr False"
      using f s0 by (simp add: matches_fresh_wrapper)
    have "handler_eq ?w ?w" by simp
    then have "invoke_token (fst (on name ?w context ?st0)) (snd (on name ?w context ?st0))
            = (Normal, ?st0) \<and>
          invoke_token (fst (on name ?w context ?st0)) ?st0 = (Normal, ?st0)"
      using g0 r0 assms(3) m by (intro token_twice)
    then show ?thesis by (simp add: once_def)
  qed
  show ?thesis using part_on part_once by blast
qed

theorem token_second_call_is_noop_witness:
  "get_prop ex_listener ''event'' \<noteq> Other \<and> registry ex_listener ''event'' \<noteq> Some [] \<and>
   loose_eq (Obj 7) (Obj 7) \<and> loose_eq (Fun 0) (Fun 0) \<and>
   list_all (\<lambda>s. matchesSubscription (Plain (Fun 0)) (default_null (Obj 7)) s = Inr False)
      (subscriptions ex_listener ''event'') \<and>
   list_all (\<lambda>s. original (sub_handler s) \<noteq> Inl TypeError \<and>
                 (case sub_handler s of Plain v \<Rightarrow> True
                  | OnceHandler j n h' c' \<Rightarrow> j \<noteq> allocated ex_listener))
      (subscriptions ex_listener ''event'') \<and>
   invoke_token (fst (on ''event'' (Plain (Fun 0)) (Obj 7) ex_listener))
      (snd (on ''event'' (Plain (Fun 0)) (Obj 7) ex_listener)) = (Normal, ex_listener) \<and>
   invoke_token (fst (on ''event'' (Plain (Fun 0)) (Obj 7) ex_listener)) ex_listener
      = (Normal, ex_listener) \<and>
   invoke_token (fst (once ''event'' (Fun 0) (Obj 7) ex_listener))
      (snd (once ''event'' (Fun 0) (Obj 7) ex_listener))
      = (Normal, ex_listener\<lparr>allocated := Suc (allocated ex_listener)\<rparr>) \<and>
   invoke_token (fst (once ''event'' (Fun 0) (Obj 7) ex_listener))
      (ex_listener\<lparr>allocated := Suc (allocated ex_listener)\<rparr>)
      = (Normal, ex_listener\<lparr>allocated := Suc (allocated ex_listener)\<rparr>)"
proof -
  have subs: "subscriptions ex_listener ''event'' = [\<lparr>sub_context = Obj 5, sub_handler = Plain (Fun 1)\<rparr>]"
    by (simp add: ex_listener_def eval_defs)
  have reg: "registry ex_listener ''event'' = Some [\<lparr>sub_context = Obj 5, sub_handler = Plain (Fun 1)\<rparr>]"
    by (simp add: ex_listener_def eval_defs)
  have a: "get_prop ex_listener ''event'' \<noteq> Other" by (simp add: get_prop_def reg)
  have b: "registry ex_listener ''event'' \<noteq> Some []" by (simp add: reg)
  then have b': "registry ex_listener ''event'' \<noteq> Some [] \<or> ''event'' = ''__proto__''" by simp
  have n: "loose_eq (Obj 7) (Obj 7)" "loose_eq (Fun 0) (Fun 0)" by (simp_all add: loose_eq_def)
  have c: "\<forall>s\<in>set (subscriptions ex_listener ''event'').
             matchesSubscription (Plain (Fun 0)) (default_null (Obj 7)) s = Inr False"
    by (simp add: subs matchesSubscription_def loose_eq_def default_null_def)
  have d: "\<forall>s\<in>set (subscriptions ex_listener ''event'').
             original (sub_handler s) \<noteq> Inl TypeError \<and>
             (\<forall>j n h' c'. sub_handler s = OnceHandler j n h' c' \<longrightarrow> j \<noteq> allocated ex_listener)"
    by (simp add: subs)
  have e: "list_all (\<lambda>s. matchesSubscription (Plain (Fun 0)) (default_null (Obj 7)) s = Inr False)
      (subscriptions ex_listener ''event'')"
    using c by (simp add: list_all_iff)
  have f: "list_all (\<lambda>s. original (sub_handler s) \<noteq> Inl TypeError \<and>
                 (case sub_handler s of Plain v \<Rightarrow> True
                  | OnceHandler j n h' c' \<Rightarrow> j \<noteq> allocated ex_listener))
      (subscriptions ex_listener ''event'')"
    by (simp add: subs)
  note twice = token_second_call_is_noop [OF a b' n(1), of "Fun 0"]
  from twice[THEN conjunct1] n(2) c
  have t_on: "invoke_token (fst (on ''event'' (Plain (Fun 0)) (Obj 7) ex_listener))
      (snd (on ''event'' (Plain (Fun 0)) (Obj 7) ex_listener)) = (Normal, ex_listener) \<and>
     invoke_token (fst (on ''event'' (Plain (Fun 0)) (Obj 7) ex_listener)) ex_listener
      = (Normal, ex_listener)"
    by blast
  from twice[THEN conjunct2] d
  have t_once: "invoke_token (fst (once ''event'' (Fun 0) (Obj 7) ex_listener))
      (snd (once ''event'' (Fun 0) (Obj 7) ex_listener))
      = (Normal, ex_listener\<lparr>allocated := Suc (allocated ex_listener)\<rparr>) \<and>
     invoke_token (fst (once ''event'' (Fun 0) (Obj 7) ex_listener))
      (ex_listener\<lparr>allocated := Suc (allocated ex_listener)\<rparr>)
      = (Normal, ex_listener\<lparr>allocated := Suc (allocated ex_listener)\<rparr>)"
    by (rule mp)
  show ?thesis using a b n e f t_on t_once by blast
qed

section \<open>Errors raised by the emitter itself\<close>

text \<open>
  C8. The claim: no operation raises an error of its own; \<open>emit\<close> for a name without
  subscribers and \<open>off\<close> without a match are silent no-ops. On a new emitter nothing is
  subscribed to \<open>toString\<close>, yet \<open>emit\<close> and \<open>off\<close> raise a TypeError and invoke no
  handler: the lookup finds the inherited function, which is truthy and has neither
  \<open>forEach\<close> nor \<open>find\<close>. And \<open>off\<close> raises a TypeError when it reads the tag of a stored
  handler that is \<open>null\<close>.
\<close>

theorem emit_and_off_raise_on_inherited_name:
  "emit ''toString'' [] new_emitter = (Throw TypeError, new_emitter) \<and>
   off ''toString'' (Plain (Fun 0)) Undefined new_emitter = (Throw TypeError, new_emitter) \<and>
   fst (off ''event'' (Plain (Fun 0)) Undefined
          (snd (on ''event'' (Plain Null) Undefined new_emitter))) = Throw TypeError"
  by (simp add: eval_defs)

section \<open>The subscription after a once-subscription\<close>




section \<open>off without a handler\<close>

text \<open>
  C10, as stated: \<open>off(name, undefined)\<close> removes the first plain subscription whose stored
  context is \<open>null\<close>. It fails when a once-subscription of an \<open>undefined\<close> handler with a
  \<open>null\<close> context stands before it: the tag of that wrapper is \<open>undefined\<close> too, the
  wrapper is the first match and is removed, and the plain subscription stays.
\<close>

theorem off_undefined_removes_wrapper_first:
  "subscriptions ex_once_undefined ''event'' =
     [\<lparr>sub_context = Null, sub_handler = OnceHandler 0 ''event'' Undefined Undefined\<rparr>,
      \<lparr>sub_context = Null, sub_handler = Plain (Fun 0)\<rparr>] \<and>
   subscriptions (snd (off ''event'' (Plain Undefined) Undefined ex_once_undefined)) ''event'' =
     [\<lparr>sub_context = Null, sub_handler = Plain (Fun 0)\<rparr>]"
  by (simp add: ex_once_undefined_def eval_defs)

text \<open>
  C10, amended: let \<open>s\<close> be a plain subscription under the name whose stored context is
  \<open>null\<close>, and let every subscription before it have a context other than \<open>null\<close> or be
  a once-wrapper of a handler that is not \<open>undefined\<close> or \<open>null\<close>. Then
  \<open>off(name, undefined)\<close> returns normally and removes \<open>s\<close>, whatever its handler is.
  For a name other than \<open>__proto__\<close> the key is deleted when \<open>s\<close> was the only
  subscription.
\<close>

theorem off_undefined_removes_first_plain:
  assumes "registry st name = Some (pre @ s # rest)"
    and "sub_handler s = Plain v"
    and "sub_context s = Null"
    and "\<forall>p\<in>set pre. \<not> nullish (sub_context p) \<or>
           (\<exists>i n h c. sub_handler p = OnceHandler i n h c \<and> \<not> nullish h)"
  shows "off name (Plain Undefined) Undefined st =
     (Normal, st\<lparr>registry := (registry st)
        (name := if pre @ rest = [] \<and> name \<noteq> ''__proto__'' then None
                 else Some (pre @ rest))\<rparr>)"
proof -
  have pre: "\<forall>p\<in>set pre. matchesSubscription (Plain Undefined) (default_null Undefined) p = Inr False"
  proof
    fix p assume "p \<in> set pre"
    with assms(4) have "\<not> nullish (sub_context p) \<or>
           (\<exists>i n h c. sub_handler p = OnceHandler i n h c \<and> \<not> nullish h)" by blast
    then show "matchesSubscription (Plain Undefined) (default_null Undefined) p = Inr False"
      by (cases "sub_handler p")
         (auto simp: matchesSubscription_def loose_eq_def default_null_def Let_def)
  qed
  have self: "matchesSubscription (Plain Undefined) (default_null Undefined) s = Inr True"
    using assms(2,3)
    by (auto simp: matchesSubscription_def loose_eq_def default_null_def Let_def)
  have "off name (Plain Undefined) Undefined st = (Normal, removed name (pre @ rest) st)"
    using assms(1) pre self by (rule off_removes)
  then show ?thesis by (simp add: removed_eq)
qed

theorem off_undefined_removes_first_plain_witness:
  "registry ex_two ''event'' =
      Some ([\<lparr>sub_context = Obj 5, sub_handler = Plain (Fun 1)\<rparr>] @
            \<lparr>sub_context = Null, sub_handler = Plain (Fun 0)\<rparr> # []) \<and>
   off ''event'' (Plain Undefined) Undefined ex_two =
     (Normal, ex_two\<lparr>registry := (registry ex_two)
        (''event'' \<mapsto> [\<lparr>sub_context = Obj 5, sub_handler = Plain (Fun 1)\<rparr>])\<rparr>)"
proof -
  have reg: "registry ex_two ''event'' =
      Some ([\<lparr>sub_context = Obj 5, sub_handler = Plain (Fun 1)\<rparr>] @
            \<lparr>sub_context = Null, sub_handler = Plain (Fun 0)\<rparr> # [])"
    by (simp add: ex_two_def ex_listener_def eval_defs)
  have pre: "\<forall>p\<in>set [\<lparr>sub_context = Obj 5, sub_handler = Plain (Fun 1)\<rparr>].
       \<not> nullish (sub_context p) \<or>
       (\<exists>i n h c. sub_handler p = OnceHandler i n h c \<and> \<not> nullish h)"
    by simp
  show ?thesis
    using off_undefined_removes_first_plain [OF reg _ _ pre, of "Fun 0"] reg
    by simp
qed


end
